theory Spec2Isabelle
  imports Complex_Main "HOL-Library.Word"
begin

section \<open>Face recognition component: a model of FaceRecognitionApp.jsx\<close>

text \<open>
  The component keeps four pieces of React state (the registered descriptors, the name
  typed by the user, the detecting flag and the brightness warning), writes the
  registry to the browser's local storage, and drives a recognition session with two
  timers. The model below follows the handlers of the component one by one.

  Numbers: JavaScript numbers are modelled by the type \<open>number\<close>, whose finite
  values are real numbers (rounding of doubles is not modelled) and which keeps
  \<open>NaN\<close> and the two infinities, because the brightness check divides by a pixel
  count that can be zero. The sign of zero is not modelled. The components of a face
  descriptor (a \<open>Float32Array\<close>) are finite and modelled as reals.
\<close>

subsection \<open>JavaScript numbers\<close>

datatype number = NaN | NegInfinity | Num real | Infinity

fun js_add :: "number \<Rightarrow> number \<Rightarrow> number" where
  "js_add NaN _ = NaN"
| "js_add _ NaN = NaN"
| "js_add (Num x) (Num y) = Num (x + y)"
| "js_add Infinity NegInfinity = NaN"
| "js_add NegInfinity Infinity = NaN"
| "js_add Infinity _ = Infinity"
| "js_add _ Infinity = Infinity"
| "js_add NegInfinity _ = NegInfinity"
| "js_add _ NegInfinity = NegInfinity"

fun js_div :: "number \<Rightarrow> number \<Rightarrow> number" where
  "js_div NaN _ = NaN"
| "js_div _ NaN = NaN"
| "js_div (Num x) (Num y) =
     (if y \<noteq> 0 then Num (x / y)
      else if x = 0 then NaN
      else if 0 < x then Infinity else NegInfinity)"
| "js_div (Num x) _ = Num 0"
| "js_div Infinity (Num y) = (if 0 \<le> y then Infinity else NegInfinity)"
| "js_div NegInfinity (Num y) = (if 0 \<le> y then NegInfinity else Infinity)"
| "js_div _ _ = NaN"

fun js_lt :: "number \<Rightarrow> number \<Rightarrow> bool" where
  "js_lt NaN _ = False"
| "js_lt _ NaN = False"
| "js_lt (Num x) (Num y) = (x < y)"
| "js_lt NegInfinity NegInfinity = False"
| "js_lt NegInfinity _ = True"
| "js_lt _ NegInfinity = False"
| "js_lt Infinity _ = False"
| "js_lt _ Infinity = True"

subsection \<open>The brightness check\<close>

text \<open>
  \<open>frame.data\<close> is a \<open>Uint8ClampedArray\<close>: four bytes (red, green, blue, alpha)
  per pixel. Reading past its end gives \<open>undefined\<close>, which arithmetic turns into
  \<open>NaN\<close>.
\<close>

type_synonym byte = "8 word"

record frame =
  data :: "byte list"

definition readByte :: "byte list \<Rightarrow> nat \<Rightarrow> number" where
  "readByte d i = (if i < length d then Num (real (unat (d ! i))) else NaN)"

text \<open>
  The loop \<open>for (let i = 0; i < frame.data.length; i += 4) total += (r + g + b) / 3\<close>,
  entered at index \<open>i\<close> with the running total \<open>tot\<close>.
\<close>

function brightnessTotal :: "byte list \<Rightarrow> nat \<Rightarrow> number \<Rightarrow> number" where
  "brightnessTotal d i tot =
     (if i < length d
      then brightnessTotal d (i + 4)
             (js_add tot
                (js_div (js_add (js_add (readByte d i) (readByte d (i + 1))) (readByte d (i + 2))) (Num 3)))
      else tot)"
  by pat_completeness auto
termination
  by (relation "measure (\<lambda>(d, i, tot). length d - i)") auto

declare brightnessTotal.simps [simp del]

definition frameAverage :: "frame \<Rightarrow> number" where
  "frameAverage f =
     js_div (brightnessTotal (data f) 0 (Num 0))
            (js_div (Num (real (length (data f)))) (Num 4))"

definition tooDarkWarning :: string where
  "tooDarkWarning = ''Warning: Camera image is too dark. Please increase brightness.''"

text \<open>
  The new value of the \<open>brightnessWarning\<close> state for a frame: the warning text below
  the threshold of 60, the empty string otherwise.
\<close>

definition brightnessSignal :: "frame \<Rightarrow> string" where
  "brightnessSignal f = (if js_lt (frameAverage f) (Num 60) then tooDarkWarning else [])"






subsection \<open>Face descriptors, detections and the persisted format\<close>

type_synonym embedding = "real list"

record labeledFaceDescriptors =
  label :: string
  descriptors :: "embedding list"

text \<open>A bounding box: left, top, width and height.\<close>

type_synonym box = "real \<times> real \<times> real \<times> real"

record detection =
  faceBox :: box
  descriptor :: embedding

datatype json =
    JNull
  | JBool bool
  | JNum real
  | JStr string
  | JArr "json list"
  | JObj "(string \<times> json) list"

text \<open>
  The value handed to \<open>JSON.stringify\<close> in \<open>handleRegister\<close>: one object per
  identity, its descriptors turned into plain arrays by \<open>Array.from\<close>.
\<close>

definition toSave :: "labeledFaceDescriptors list \<Rightarrow> json" where
  "toSave updated =
     JArr (map (\<lambda>desc. JObj [(''label'', JStr (label desc)),
                              (''descriptors'',
                               JArr (map (\<lambda>d. JArr (map JNum d)) (descriptors desc)))])
               updated)"





subsection \<open>The matcher\<close>

text \<open>
  Modelled from the spec: the matcher \<open>FaceMatcher\<close> and its \<open>findBestMatch\<close>
  belong to the face-api.js library, which is not among the source files. The
  specification describes them: the identity with the minimum Euclidean distance
  between its stored embeddings and the probe, the overall minimum being kept when an
  identity holds several embeddings, classified as known when that distance is at most
  the threshold. The component tells an unknown face by the label \<open>unknown\<close> of the
  result. Where no identity holds an embedding there is nothing to compare and the
  result is \<open>None\<close>.
\<close>

record faceMatch =
  matchLabel :: string
  distance :: real

definition euclideanDistance :: "embedding \<Rightarrow> embedding \<Rightarrow> real" where
  "euclideanDistance a b = sqrt (\<Sum>(u, v) \<leftarrow> zip a b. (u - v)\<^sup>2)"

fun nearestDistance :: "embedding \<Rightarrow> embedding list \<Rightarrow> real option" where
  "nearestDistance p [] = None"
| "nearestDistance p (e # es) =
     (case nearestDistance p es of
        None \<Rightarrow> Some (euclideanDistance e p)
      | Some d \<Rightarrow> Some (min (euclideanDistance e p) d))"

fun bestIdentity :: "embedding \<Rightarrow> labeledFaceDescriptors list \<Rightarrow> faceMatch option" where
  "bestIdentity p [] = None"
| "bestIdentity p (li # rest) =
     (case nearestDistance p (descriptors li) of
        None \<Rightarrow> bestIdentity p rest
      | Some d \<Rightarrow>
          (case bestIdentity p rest of
             None \<Rightarrow> Some \<lparr>matchLabel = label li, distance = d\<rparr>
           | Some m \<Rightarrow>
               if d \<le> distance m then Some \<lparr>matchLabel = label li, distance = d\<rparr>
               else Some m))"

definition findBestMatch ::
  "labeledFaceDescriptors list \<Rightarrow> real \<Rightarrow> embedding \<Rightarrow> faceMatch option" where
  "findBestMatch registered threshold p =
     map_option
       (\<lambda>m. if distance m \<le> threshold then m
            else \<lparr>matchLabel = ''unknown'', distance = distance m\<rparr>)
       (bestIdentity p registered)"

text \<open>
  The label drawn on a face's box (line 149 of the component): \<open>Unknown\<close> when the
  label of the match is \<open>unknown\<close>, otherwise \<open>match.toString()\<close>, the label followed
  by the distance, which \<open>MatchText\<close> stands for.
\<close>

datatype boxLabel = Unknown | MatchText string real

definition drawLabel :: "faceMatch option \<Rightarrow> boxLabel" where
  "drawLabel r =
     (case r of
        None \<Rightarrow> Unknown
      | Some m \<Rightarrow>
          if matchLabel m = ''unknown'' then Unknown
          else MatchText (matchLabel m) (distance m))"

subsection \<open>The state of the component and of its environment\<close>

text \<open>
  Arrays are objects: the \<open>descriptors\<close> state holds a reference to an array of
  labelled descriptors, and the matcher of a session holds the reference it was built
  from. The \<open>heap\<close> maps references to array contents; \<open>nextRef\<close> is the next
  unused reference. The elements of the arrays are never modified by the component and
  are kept as values.

  The environment is the local storage (each stored text is represented by the JSON
  value it encodes), the clock and the pending timers of the event loop, and the
  \<open>trace\<close> of calls made to the outside: alerts, console errors, detector calls,
  matcher calls and drawings, oldest first.
\<close>

type_synonym ref = nat

record faceMatcher =
  labeledDescriptors :: ref
  distanceThreshold :: real

datatype action = PollTick faceMatcher | StopSession nat

record timer =
  tid :: nat
  due :: nat
  every :: "nat option"
  act :: action

datatype effect =
    Alert string
  | ConsoleError string
  | DetectSingleFace
  | DetectAllFaces
  | NewFaceMatcher ref real
  | FindBestMatch embedding "faceMatch option"
  | ClearCanvas
  | DrawBox box boxLabel

record world =
  heap :: "ref \<Rightarrow> labeledFaceDescriptors list"
  nextRef :: ref
  descriptorsState :: ref
  name :: string
  detecting :: bool
  brightnessWarning :: string
  storage :: "string \<rightharpoonup> json"
  now :: nat
  timers :: "timer list"
  nextTimer :: nat
  trace :: "effect list"

text \<open>The registry: the array the \<open>descriptors\<close> state points to.\<close>

definition registry :: "world \<Rightarrow> labeledFaceDescriptors list" where
  "registry w = heap w (descriptorsState w)"

definition emit :: "effect \<Rightarrow> world \<Rightarrow> world" where
  "emit e w = w\<lparr>trace := trace w @ [e]\<rparr>"

definition alert :: "string \<Rightarrow> world \<Rightarrow> world" where
  "alert msg w = emit (Alert msg) w"

text \<open>\<open>setDescriptors\<close> with a new array: the array is allocated and the state points to it.\<close>

definition setDescriptors :: "labeledFaceDescriptors list \<Rightarrow> world \<Rightarrow> world" where
  "setDescriptors arr w =
     w\<lparr>heap := (heap w)(nextRef w := arr),
       nextRef := Suc (nextRef w),
       descriptorsState := nextRef w\<rparr>"

definition storageKey :: string where
  "storageKey = ''face_descriptors''"

text \<open>
  The component as first rendered (\<open>useState([])\<close>, \<open>useState("")\<close>,
  \<open>useState(false)\<close>, \<open>useState("")\<close>) over a given local storage.
\<close>

definition initialWorld :: "(string \<rightharpoonup> json) \<Rightarrow> world" where
  "initialWorld st =
     \<lparr>heap = (\<lambda>_. []), nextRef = 1, descriptorsState = 0, name = [], detecting = False,
      brightnessWarning = [], storage = st, now = 0, timers = [], nextTimer = 0,
      trace = []\<rparr>"


subsection \<open>Brightness warning state\<close>

text \<open>
  \<open>checkBrightness\<close>: nothing happens while there is no video element; otherwise the
  warning state is set from the current frame.
\<close>

definition checkBrightness :: "frame option \<Rightarrow> world \<Rightarrow> world" where
  "checkBrightness video w =
     (case video of
        None \<Rightarrow> w
      | Some f \<Rightarrow> w\<lparr>brightnessWarning := brightnessSignal f\<rparr>)"

subsection \<open>Registration\<close>

definition enterNameMessage :: string where
  "enterNameMessage = ''Please enter a name before registering!''"

definition noFaceMessage :: string where
  "noFaceMessage = ''No face detected. Please try again.''"

text \<open>
  The state update of \<open>handleRegister\<close>: a new array with the new entry at its end,
  saved to the local storage in full.
\<close>

definition appendDescriptor :: "labeledFaceDescriptors \<Rightarrow> world \<Rightarrow> world" where
  "appendDescriptor newDescriptor w =
     (let updated = registry w @ [newDescriptor]
      in setDescriptors updated (w\<lparr>storage := (storage w)(storageKey \<mapsto> toSave updated)\<rparr>))"

text \<open>
  \<open>handleRegister\<close>. Its argument is what \<open>detectSingleFace\<close> answers for the current
  frame, if it is asked: \<open>None\<close> when it finds no face. React runs the update of the
  \<open>descriptors\<close> state when it next renders; the model runs it at once, which gives
  the same state and the same storage once the handler is done.
\<close>

definition handleRegister :: "detection option \<Rightarrow> world \<Rightarrow> world" where
  "handleRegister found w =
     (if name w = [] then alert enterNameMessage w
      else
        let w1 = emit DetectSingleFace w in
        case found of
          None \<Rightarrow> alert noFaceMessage w1
        | Some d \<Rightarrow>
            let newDescriptor = \<lparr>label = name w, descriptors = [descriptor d]\<rparr>;
                w2 = appendDescriptor newDescriptor w1;
                w3 = alert (name w @ '' registered successfully!'') w2
            in w3\<lparr>name := []\<rparr>)"

text \<open>The number of identities in the persisted record (none when nothing is stored).\<close>

definition persistedLength :: "world \<Rightarrow> nat" where
  "persistedLength w =
     (case storage w storageKey of Some (JArr items) \<Rightarrow> length items | _ \<Rightarrow> 0)"

subsection \<open>Timers\<close>

definition setInterval :: "action \<Rightarrow> nat \<Rightarrow> world \<Rightarrow> nat \<times> world" where
  "setInterval a delay w =
     (nextTimer w,
      w\<lparr>timers := timers w @ [\<lparr>tid = nextTimer w, due = now w + delay, every = Some delay, act = a\<rparr>],
        nextTimer := Suc (nextTimer w)\<rparr>)"

definition setTimeout :: "action \<Rightarrow> nat \<Rightarrow> world \<Rightarrow> nat \<times> world" where
  "setTimeout a delay w =
     (nextTimer w,
      w\<lparr>timers := timers w @ [\<lparr>tid = nextTimer w, due = now w + delay, every = None, act = a\<rparr>],
        nextTimer := Suc (nextTimer w)\<rparr>)"

definition clearInterval :: "nat \<Rightarrow> world \<Rightarrow> world" where
  "clearInterval i w = w\<lparr>timers := filter (\<lambda>t. tid t \<noteq> i) (timers w)\<rparr>"

subsection \<open>The recognition session\<close>

text \<open>
  What the camera and the detector give at a moment: the video element's current frame
  (\<open>None\<close> while there is no video element) and the faces \<open>detectAllFaces\<close> finds,
  resized to the display.
\<close>

record observation =
  video :: "frame option"
  faces :: "detection list"

type_synonym env = "nat \<Rightarrow> observation"

definition registerFirstMessage :: string where
  "registerFirstMessage = ''Please register at least one face first!''"

text \<open>
  \<open>handleDetect\<close>. The overlay canvas it creates and sizes belongs to the page and is
  not modelled; what is kept is the guard, the detecting flag, the matcher and the two
  timers: the polling interval of 300 ms and the timeout of 30000 ms that clears it.
\<close>

definition handleDetect :: "world \<Rightarrow> world" where
  "handleDetect w =
     (if length (registry w) = 0 then alert registerFirstMessage w
      else
        let w1 = w\<lparr>detecting := True\<rparr>;
            faceMatcher = \<lparr>labeledDescriptors = descriptorsState w, distanceThreshold = 0.6\<rparr>;
            w2 = emit (NewFaceMatcher (descriptorsState w) 0.6) w1;
            (detectInterval, w3) = setInterval (PollTick faceMatcher) 300 w2;
            (stop, w4) = setTimeout (StopSession detectInterval) 30000 w3
        in w4)"

text \<open>One detected face of a poll tick: match its descriptor, draw its box.\<close>

definition drawDetection :: "faceMatcher \<Rightarrow> world \<Rightarrow> detection \<Rightarrow> world" where
  "drawDetection m w d =
     (let match = findBestMatch (heap w (labeledDescriptors m)) (distanceThreshold m)
                    (descriptor d)
      in emit (DrawBox (faceBox d) (drawLabel match))
           (emit (FindBestMatch (descriptor d) match) w))"

text \<open>
  The callback of the polling interval: the brightness check, the detector call, the
  clearing of the canvas and one labelled box per face. The callback waits for the
  detector; the model runs it as one step.
\<close>

definition pollTick :: "env \<Rightarrow> faceMatcher \<Rightarrow> world \<Rightarrow> world" where
  "pollTick e m w =
     (let obs = e (now w);
          w1 = checkBrightness (video obs) w;
          w2 = emit ClearCanvas (emit DetectAllFaces w1)
      in foldl (drawDetection m) w2 (faces obs))"

fun runAction :: "env \<Rightarrow> action \<Rightarrow> world \<Rightarrow> world" where
  "runAction e (PollTick m) w = pollTick e m w"
| "runAction e (StopSession detectInterval) w = (clearInterval detectInterval w)\<lparr>detecting := False\<rparr>"

text \<open>
  The event loop. \<open>earliest\<close> is the position of the timer that is due first, the one
  set first among equals. Firing a timer moves the clock to its due time, removes it
  (a timeout) or schedules its next run (an interval, a delay of zero counting as one),
  and runs its callback. \<open>advance e t\<close> lets time pass until \<open>t\<close>, firing every timer
  that comes due on the way.
\<close>

fun earliest :: "timer list \<Rightarrow> nat option" where
  "earliest [] = None"
| "earliest (t # ts) =
     (case earliest ts of
        None \<Rightarrow> Some 0
      | Some j \<Rightarrow> if due t \<le> due (ts ! j) then Some 0 else Some (Suc j))"

definition fire :: "env \<Rightarrow> nat \<Rightarrow> world \<Rightarrow> world" where
  "fire e i w =
     (let tm = timers w ! i;
          pending = (case every tm of
                       None \<Rightarrow> take i (timers w) @ drop (Suc i) (timers w)
                     | Some p \<Rightarrow> (timers w)[i := tm\<lparr>due := due tm + max 1 p\<rparr>])
      in runAction e (act tm) (w\<lparr>now := max (now w) (due tm), timers := pending\<rparr>))"

definition weight :: "nat \<Rightarrow> timer \<Rightarrow> nat" where
  "weight t tm = (case every tm of None \<Rightarrow> 1 | Some p \<Rightarrow> Suc t - due tm)"

text \<open>Every firing lowers the summed weight of the pending timers, so the loop ends.\<close>

lemma earliest_less: "earliest ts = Some i \<Longrightarrow> i < length ts"
  by (induction ts arbitrary: i) (auto split: option.splits if_splits)

lemma timers_emit: "timers (emit x w) = timers w"
  by (simp add: emit_def)

lemma timers_checkBrightness: "timers (checkBrightness v w) = timers w"
  by (simp add: checkBrightness_def split: option.splits)

lemma timers_drawDetection: "timers (drawDetection m w d) = timers w"
  by (simp add: drawDetection_def Let_def timers_emit)

lemma timers_foldl_drawDetection: "timers (foldl (drawDetection m) w ds) = timers w"
  by (induction ds arbitrary: w) (simp_all add: timers_drawDetection)

lemma timers_pollTick: "timers (pollTick e m w) = timers w"
  by (simp add: pollTick_def Let_def timers_foldl_drawDetection timers_emit timers_checkBrightness)

lemma sum_weight_filter: "sum_list (map (weight t) (filter P ts)) \<le> sum_list (map (weight t) ts)"
  by (induction ts) auto

lemma weight_runAction:
  "sum_list (map (weight t) (timers (runAction e a w))) \<le> sum_list (map (weight t) (timers w))"
  by (cases a) (simp_all add: timers_pollTick clearInterval_def sum_weight_filter)

lemma sum_weight_remove:
  "i < length ts \<Longrightarrow>
   sum_list (map (weight t) (take i ts @ drop (Suc i) ts)) + weight t (ts ! i)
     = sum_list (map (weight t) ts)"
proof (induction ts arbitrary: i)
  case Nil then show ?case by simp
next
  case (Cons a ts)
  show ?case
  proof (cases i)
    case 0 then show ?thesis by simp
  next
    case (Suc j)
    with Cons.prems have "j < length ts" by simp
    from Cons.IH [OF this] Suc show ?thesis by simp
  qed
qed

lemma sum_weight_update:
  "i < length ts \<Longrightarrow>
   sum_list (map (weight t) (ts[i := u])) + weight t (ts ! i)
     = sum_list (map (weight t) ts) + weight t u"
proof (induction ts arbitrary: i)
  case Nil then show ?case by simp
next
  case (Cons a ts)
  then show ?case by (cases i) auto
qed

lemma weight_fire:
  assumes "earliest (timers w) = Some i" and "due (timers w ! i) \<le> t"
  shows "sum_list (map (weight t) (timers (fire e i w))) < sum_list (map (weight t) (timers w))"
proof -
  let ?tm = "timers w ! i"
  have i: "i < length (timers w)" using assms(1) by (rule earliest_less)
  show ?thesis
  proof (cases "every ?tm")
    case None
    have "weight t ?tm = 1" using None by (simp add: weight_def)
    with sum_weight_remove [OF i, of t]
    have "sum_list (map (weight t) (take i (timers w) @ drop (Suc i) (timers w)))
            < sum_list (map (weight t) (timers w))" by linarith
    moreover have "sum_list (map (weight t) (timers (fire e i w)))
            \<le> sum_list (map (weight t) (take i (timers w) @ drop (Suc i) (timers w)))"
      using weight_runAction [of t e "act ?tm" "w\<lparr>now := max (now w) (due ?tm), timers := take i (timers w) @ drop (Suc i) (timers w)\<rparr>"] None
      by (simp add: fire_def Let_def)
    ultimately show ?thesis by linarith
  next
    case (Some p)
    let ?u = "?tm\<lparr>due := due ?tm + max 1 p\<rparr>"
    have "weight t ?u < weight t ?tm" using Some assms(2) by (simp add: weight_def)
    with sum_weight_update [OF i, of t ?u]
    have "sum_list (map (weight t) ((timers w)[i := ?u])) < sum_list (map (weight t) (timers w))"
      by linarith
    moreover have "sum_list (map (weight t) (timers (fire e i w)))
            \<le> sum_list (map (weight t) ((timers w)[i := ?u]))"
      using weight_runAction [of t e "act ?tm" "w\<lparr>now := max (now w) (due ?tm), timers := (timers w)[i := ?u]\<rparr>"] Some
      by (simp add: fire_def Let_def)
    ultimately show ?thesis by linarith
  qed
qed

function advance :: "env \<Rightarrow> nat \<Rightarrow> world \<Rightarrow> world" where
  "advance e t w =
     (case earliest (timers w) of
        None \<Rightarrow> w\<lparr>now := max (now w) t\<rparr>
      | Some i \<Rightarrow>
          if due (timers w ! i) \<le> t then advance e t (fire e i w)
          else w\<lparr>now := max (now w) t\<rparr>)"
  by pat_completeness auto
termination
  by (relation "measure (\<lambda>(e, t, w). sum_list (map (weight t) (timers w)))")
     (auto simp: weight_fire)

declare advance.simps [simp del]

text \<open>
  The name input and the two buttons are rendered with \<open>disabled={detecting}\<close>; the
  input's change handler stores what is typed.
\<close>

definition setName :: "string \<Rightarrow> world \<Rightarrow> world" where
  "setName n w = w\<lparr>name := n\<rparr>"

definition controlsDisabled :: "world \<Rightarrow> bool" where
  "controlsDisabled w = detecting w"

text \<open>
  What can happen while a session is in flight: a registration completes for some name
  and some answer of the detector, or time passes.
\<close>

datatype event = Register string "detection option" | Elapse nat

fun step :: "env \<Rightarrow> world \<Rightarrow> event \<Rightarrow> world" where
  "step e w (Register n found) = handleRegister found (setName n w)"
| "step e w (Elapse t) = advance e t w"

definition run :: "env \<Rightarrow> event list \<Rightarrow> world \<Rightarrow> world" where
  "run e evs w = foldl (step e) w evs"

subsection \<open>Auxiliary notions for the proofs\<close>

text \<open>The calls a poll tick makes for the faces it found, against a given registry.\<close>

definition matchEffects ::
  "labeledFaceDescriptors list \<Rightarrow> real \<Rightarrow> detection list \<Rightarrow> effect list" where
  "matchEffects r th ds =
     concat (map (\<lambda>d. [FindBestMatch (descriptor d) (findBestMatch r th (descriptor d)),
                        DrawBox (faceBox d) (drawLabel (findBestMatch r th (descriptor d)))]) ds)"

text \<open>
  The invariant of a session whose matcher was built from the array at \<open>r0\<close>, then
  holding \<open>snapshot\<close>: the array is allocated and unchanged, every pending poll tick
  carries that matcher, and every match recorded since \<open>before\<close> was computed against
  the snapshot.
\<close>

definition snapshotMatch :: "labeledFaceDescriptors list \<Rightarrow> real \<Rightarrow> effect \<Rightarrow> bool" where
  "snapshotMatch r th x =
     (case x of FindBestMatch p res \<Rightarrow> res = findBestMatch r th p | _ \<Rightarrow> True)"

definition sessionTimer :: "ref \<Rightarrow> real \<Rightarrow> timer \<Rightarrow> bool" where
  "sessionTimer r0 th tm =
     (case act tm of
        PollTick m \<Rightarrow> labeledDescriptors m = r0 \<and> distanceThreshold m = th
      | StopSession _ \<Rightarrow> True)"

definition sessionInv ::
  "ref \<Rightarrow> labeledFaceDescriptors list \<Rightarrow> real \<Rightarrow> effect list \<Rightarrow> world \<Rightarrow> bool" where
  "sessionInv r0 snapshot th before v =
     (r0 < nextRef v \<and> heap v r0 = snapshot
      \<and> list_all (sessionTimer r0 th) (timers v)
      \<and> (\<exists>es. trace v = before @ es \<and> list_all (snapshotMatch snapshot th) es))"

subsection \<open>Example inputs\<close>

definition aliceFace :: detection where
  "aliceFace = \<lparr>faceBox = (0, 0, 1, 1), descriptor = [0, 0]\<rparr>"

definition bobFace :: detection where
  "bobFace = \<lparr>faceBox = (2, 0, 1, 1), descriptor = [1, 0]\<rparr>"

text \<open>A fresh page on which one face has been registered under a given name.\<close>

definition registered :: "string \<Rightarrow> world" where
  "registered n = handleRegister (Some aliceFace) (setName n (initialWorld Map.empty))"

text \<open>A camera that always shows the given faces, with no video element to sample.\<close>

definition showing :: "detection list \<Rightarrow> env" where
  "showing ds = (\<lambda>t. \<lparr>video = None, faces = ds\<rparr>)"

section \<open>Properties\<close>

subsection \<open>Brightness\<close>














subsection \<open>Registration\<close>


lemma handleRegister_success:
  assumes "name w \<noteq> []"
  shows "handleRegister (Some d) w =
           w\<lparr>heap := (heap w)(nextRef w := registry w @ [\<lparr>label = name w, descriptors = [descriptor d]\<rparr>]),
             nextRef := Suc (nextRef w),
             descriptorsState := nextRef w,
             storage := (storage w)(storageKey \<mapsto>
                toSave (registry w @ [\<lparr>label = name w, descriptors = [descriptor d]\<rparr>])),
             trace := trace w @ [DetectSingleFace, Alert (name w @ '' registered successfully!'')],
             name := []\<rparr>"
  using assms
  by (simp add: handleRegister_def Let_def appendDescriptor_def setDescriptors_def alert_def
        emit_def registry_def)

lemma registered_eq:
  assumes "n \<noteq> []"
  shows "registered n =
           \<lparr>heap = (\<lambda>_. [])(Suc 0 := [\<lparr>label = n, descriptors = [[0, 0]]\<rparr>]),
            nextRef = 2, descriptorsState = 1, name = [], detecting = False,
            brightnessWarning = [],
            storage = [storageKey \<mapsto> toSave [\<lparr>label = n, descriptors = [[0, 0]]\<rparr>]],
            now = 0, timers = [], nextTimer = 0,
            trace = [DetectSingleFace, Alert (n @ '' registered successfully!'')]\<rparr>"
  using assms
  by (simp add: registered_def handleRegister_success setName_def)
     (simp add: initialWorld_def registry_def aliceFace_def)



text \<open>
  Claim C4. A registration with an empty name, or one for which the detector finds no
  face, reports an error by an alert and changes nothing else: the registry, its
  length, the array it lives in and the persisted record are as before.
\<close>

theorem failed_registration_changes_nothing:
  "(name w = [] \<longrightarrow>
      handleRegister found w = w\<lparr>trace := trace w @ [Alert enterNameMessage]\<rparr>)
   \<and> (name w \<noteq> [] \<longrightarrow>
      handleRegister None w = w\<lparr>trace := trace w @ [DetectSingleFace, Alert noFaceMessage]\<rparr>)
   \<and> (name w = [] \<or> found = None \<longrightarrow>
      registry (handleRegister found w) = registry w
      \<and> length (registry (handleRegister found w)) = length (registry w)
      \<and> heap (handleRegister found w) = heap w
      \<and> descriptorsState (handleRegister found w) = descriptorsState w
      \<and> storage (handleRegister found w) = storage w
      \<and> persistedLength (handleRegister found w) = persistedLength w
      \<and> name (handleRegister found w) = name w
      \<and> (\<exists>msg. last (trace (handleRegister found w)) = Alert msg
               \<and> msg \<in> {enterNameMessage, noFaceMessage}))"
  by (auto simp: handleRegister_def Let_def alert_def emit_def registry_def persistedLength_def)

theorem failed_registration_changes_nothing_witness:
  "registry (handleRegister (Some bobFace) (registered ''Alice'')) = registry (registered ''Alice'')
   \<and> storage (handleRegister (Some bobFace) (registered ''Alice'')) = storage (registered ''Alice'')
   \<and> last (trace (handleRegister (Some bobFace) (registered ''Alice''))) = Alert enterNameMessage
   \<and> registry (handleRegister None (setName ''Bob'' (registered ''Alice'')))
       = [\<lparr>label = ''Alice'', descriptors = [[0, 0]]\<rparr>]
   \<and> persistedLength (handleRegister None (setName ''Bob'' (registered ''Alice''))) = 1
   \<and> last (trace (handleRegister None (setName ''Bob'' (registered ''Alice'')))) = Alert noFaceMessage"
proof -
  let ?w = "registered ''Alice''"
  let ?w1 = "setName ''Bob'' ?w"
  have a: "?w = \<lparr>heap = (\<lambda>_. [])(Suc 0 := [\<lparr>label = ''Alice'', descriptors = [[0, 0]]\<rparr>]),
            nextRef = 2, descriptorsState = 1, name = [], detecting = False,
            brightnessWarning = [],
            storage = [storageKey \<mapsto> toSave [\<lparr>label = ''Alice'', descriptors = [[0, 0]]\<rparr>]],
            now = 0, timers = [], nextTimer = 0,
            trace = [DetectSingleFace, Alert (''Alice'' @ '' registered successfully!'')]\<rparr>"
    by (rule registered_eq) simp
  have e: "name ?w = []" by (simp add: a)
  have n: "name ?w1 \<noteq> []" by (simp add: setName_def)
  have r1: "registry ?w1 = [\<lparr>label = ''Alice'', descriptors = [[0, 0]]\<rparr>]"
    and p1: "persistedLength ?w1 = 1"
    by (simp_all add: a setName_def registry_def persistedLength_def toSave_def)
  from failed_registration_changes_nothing [of ?w "Some bobFace"] e
  have eq: "handleRegister (Some bobFace) ?w = ?w\<lparr>trace := trace ?w @ [Alert enterNameMessage]\<rparr>"
    and 1: "registry (handleRegister (Some bobFace) ?w) = registry ?w"
    and 2: "storage (handleRegister (Some bobFace) ?w) = storage ?w"
    by blast+
  have 3: "last (trace (handleRegister (Some bobFace) ?w)) = Alert enterNameMessage"
    by (simp add: eq)
  from failed_registration_changes_nothing [of ?w1 None] n
  have eq1: "handleRegister None ?w1
               = ?w1\<lparr>trace := trace ?w1 @ [DetectSingleFace, Alert noFaceMessage]\<rparr>"
    and same_registry: "registry (handleRegister None ?w1) = registry ?w1"
    and same_length: "persistedLength (handleRegister None ?w1) = persistedLength ?w1"
    by blast+
  from same_registry r1 have 4: "registry (handleRegister None ?w1) = [\<lparr>label = ''Alice'', descriptors = [[0, 0]]\<rparr>]"
    by simp
  from same_length p1 have 5: "persistedLength (handleRegister None ?w1) = 1" by simp
  have 6: "last (trace (handleRegister None ?w1)) = Alert noFaceMessage"
    by (simp add: eq1)
  from 1 2 3 4 5 6 show ?thesis by simp
qed

text \<open>
  Claim C10. The input error is raised exactly for the empty name. With an empty name
  the alert is the only call made, so the detector is not asked; with any other name,
  a name of blanks included, the detector is asked first and the alert that follows is
  not the input error.
\<close>

theorem input_error_iff_empty_name:
  "(name w = [] \<longrightarrow>
      handleRegister found w = w\<lparr>trace := trace w @ [Alert enterNameMessage]\<rparr>
      \<and> DetectSingleFace \<notin> set (drop (length (trace w)) (trace (handleRegister found w))))
   \<and> (name w \<noteq> [] \<longrightarrow>
      (\<exists>outcome. trace (handleRegister found w) = trace w @ [DetectSingleFace, Alert outcome]
         \<and> outcome = (case found of None \<Rightarrow> noFaceMessage
                        | Some d \<Rightarrow> name w @ '' registered successfully!'')
         \<and> outcome \<noteq> enterNameMessage))"
proof (intro conjI impI)
  assume "name w = []"
  then show "handleRegister found w = w\<lparr>trace := trace w @ [Alert enterNameMessage]\<rparr>"
    by (simp add: handleRegister_def alert_def emit_def)
  then show "DetectSingleFace \<notin> set (drop (length (trace w)) (trace (handleRegister found w)))"
    by simp
next
  assume n: "name w \<noteq> []"
  have ne: "s @ '' registered successfully!'' \<noteq> enterNameMessage" for s
  proof
    assume "s @ '' registered successfully!'' = enterNameMessage"
    then have "rev (s @ '' registered successfully!'') = rev enterNameMessage" by simp
    then show False by (simp add: enterNameMessage_def)
  qed
  show "\<exists>outcome. trace (handleRegister found w) = trace w @ [DetectSingleFace, Alert outcome]
         \<and> outcome = (case found of None \<Rightarrow> noFaceMessage
                        | Some d \<Rightarrow> name w @ '' registered successfully!'')
         \<and> outcome \<noteq> enterNameMessage"
  proof (cases found)
    case None
    then show ?thesis using n
      by (simp add: handleRegister_def Let_def alert_def emit_def noFaceMessage_def enterNameMessage_def)
  next
    case (Some d)
    then show ?thesis using n ne [of "name w"]
      by (simp add: handleRegister_success)
  qed
qed

theorem input_error_iff_empty_name_witness:
  "trace (handleRegister (Some aliceFace) (initialWorld Map.empty)) = [Alert enterNameMessage]
   \<and> trace (handleRegister (Some aliceFace) (setName '' '' (initialWorld Map.empty)))
       = [DetectSingleFace, Alert (''  registered successfully!'')]
   \<and> registry (handleRegister (Some aliceFace) (setName '' '' (initialWorld Map.empty)))
       = [\<lparr>label = '' '', descriptors = [[0, 0]]\<rparr>]"
proof -
  let ?w0 = "initialWorld Map.empty"
  let ?w1 = "setName '' '' ?w0"
  have e: "name ?w0 = []" and t0: "trace ?w0 = []" by (simp_all add: initialWorld_def)
  have n: "name ?w1 \<noteq> []" and t1: "trace ?w1 = []" and n1: "name ?w1 = '' ''"
    by (simp_all add: initialWorld_def setName_def)
  from input_error_iff_empty_name [of ?w0 "Some aliceFace"] e t0
  have 1: "trace (handleRegister (Some aliceFace) ?w0) = [Alert enterNameMessage]" by simp
  from input_error_iff_empty_name [of ?w1 "Some aliceFace"] n t1 n1
  have 2: "trace (handleRegister (Some aliceFace) ?w1)
             = [DetectSingleFace, Alert (''  registered successfully!'')]" by simp
  have 3: "registry (handleRegister (Some aliceFace) ?w1) = [\<lparr>label = '' '', descriptors = [[0, 0]]\<rparr>]"
    using registered_eq [of "'' ''"] by (simp add: registered_def registry_def)
  from 1 2 3 show ?thesis by simp
qed

subsection \<open>The persisted format\<close>






subsection \<open>Matching\<close>

lemma euclideanDistance_nonneg: "0 \<le> euclideanDistance a b"
proof -
  have "0 \<le> (\<Sum>(u, v) \<leftarrow> zip a b. (u - v)\<^sup>2)"
    by (rule sum_list_nonneg) auto
  then show ?thesis by (simp add: euclideanDistance_def)
qed

lemma euclideanDistance_self: "euclideanDistance a a = 0"
proof -
  have "(\<Sum>(u, v) \<leftarrow> zip a a. (u - v)\<^sup>2) = 0"
    by (induction a) simp_all
  then show ?thesis by (simp add: euclideanDistance_def)
qed

lemma nearestDistance_None: "nearestDistance p es = None \<longleftrightarrow> es = []"
  by (cases es) (simp_all split: option.splits)

lemma nearestDistance_Some:
  "nearestDistance p es = Some d \<Longrightarrow>
     (\<exists>e\<in>set es. d = euclideanDistance e p) \<and> (\<forall>e\<in>set es. d \<le> euclideanDistance e p)"
proof (induction es arbitrary: d)
  case Nil
  then show ?case by simp
next
  case (Cons e es)
  show ?case
  proof (cases "nearestDistance p es")
    case None
    then have "es = []" by (simp add: nearestDistance_None)
    with Cons.prems show ?thesis by simp
  next
    case (Some d')
    from Cons.IH [OF Some] Cons.prems Some show ?thesis
      by (auto simp: min_def split: if_splits)
  qed
qed

lemma bestIdentity_None:
  "bestIdentity p r = None \<longleftrightarrow> (\<forall>li\<in>set r. descriptors li = [])"
  by (induction r) (auto simp: nearestDistance_None split: option.splits if_splits)

lemma bestIdentity_Some:
  "bestIdentity p r = Some m \<Longrightarrow>
     (\<exists>li\<in>set r. matchLabel m = label li \<and> nearestDistance p (descriptors li) = Some (distance m))
     \<and> (\<forall>li\<in>set r. \<forall>d. nearestDistance p (descriptors li) = Some d \<longrightarrow> distance m \<le> d)"
proof (induction r arbitrary: m)
  case Nil
  then show ?case by simp
next
  case (Cons li r)
  show ?case
  proof (cases "nearestDistance p (descriptors li)")
    case None
    with Cons.prems have "bestIdentity p r = Some m" by simp
    from Cons.IH [OF this] None show ?thesis by simp
  next
    case (Some d)
    show ?thesis
    proof (cases "bestIdentity p r")
      case None
      then have "\<forall>li\<in>set r. nearestDistance p (descriptors li) = None"
        by (simp add: bestIdentity_None nearestDistance_None)
      with Cons.prems Some None show ?thesis by auto
    next
      case (Some m')
      note ih = Cons.IH [OF Some]
      note d = \<open>nearestDistance p (descriptors li) = Some d\<close>
      show ?thesis
      proof (cases "d \<le> distance m'")
        case True
        with Cons.prems Some d have m: "m = \<lparr>matchLabel = label li, distance = d\<rparr>" by simp
        have "distance m \<le> d'" if "li' \<in> set r" "nearestDistance p (descriptors li') = Some d'"
          for li' d'
        proof -
          from ih that have "distance m' \<le> d'" by blast
          with True m show ?thesis by simp
        qed
        with m d show ?thesis by auto
      next
        case False
        with Cons.prems Some d have m: "m = m'" by simp
        from False m have "distance m \<le> d" by simp
        with ih m d show ?thesis by auto
      qed
    qed
  qed
qed

lemma bestIdentity_nearest:
  assumes "bestIdentity p r = Some m"
  shows "\<exists>li\<in>set r. \<exists>e\<in>set (descriptors li).
           matchLabel m = label li \<and> distance m = euclideanDistance e p
           \<and> (\<forall>li'\<in>set r. \<forall>e'\<in>set (descriptors li'). euclideanDistance e p \<le> euclideanDistance e' p)"
proof -
  from bestIdentity_Some [OF assms] obtain li where li: "li \<in> set r" "matchLabel m = label li"
    "nearestDistance p (descriptors li) = Some (distance m)"
    and least: "\<forall>li\<in>set r. \<forall>d. nearestDistance p (descriptors li) = Some d \<longrightarrow> distance m \<le> d"
    by blast
  from nearestDistance_Some [OF li(3)] obtain e where e: "e \<in> set (descriptors li)"
    "distance m = euclideanDistance e p" by blast
  have "euclideanDistance e p \<le> euclideanDistance e' p"
    if "li' \<in> set r" "e' \<in> set (descriptors li')" for li' e'
  proof -
    from that(2) have "descriptors li' \<noteq> []" by auto
    then obtain d' where d': "nearestDistance p (descriptors li') = Some d'"
      using nearestDistance_None [of p "descriptors li'"] by (cases "nearestDistance p (descriptors li')") auto
    from least that(1) d' have "distance m \<le> d'" by blast
    moreover from nearestDistance_Some [OF d'] that(2) have "d' \<le> euclideanDistance e' p" by blast
    ultimately show ?thesis using e(2) by simp
  qed
  with li e show ?thesis by blast
qed

lemma drawLabel_findBestMatch_Some:
  assumes "bestIdentity p r = Some m"
  shows "drawLabel (findBestMatch r th p)
           = (if distance m \<le> th \<and> matchLabel m \<noteq> ''unknown''
              then MatchText (matchLabel m) (distance m) else Unknown)"
  using assms by (simp add: findBestMatch_def drawLabel_def)

lemma drawLabel_findBestMatch_None:
  assumes "bestIdentity p r = None"
  shows "drawLabel (findBestMatch r th p) = Unknown"
  using assms by (simp add: findBestMatch_def drawLabel_def)

lemma advance_idle: "timers w = [] \<Longrightarrow> advance e t w = w\<lparr>now := max (now w) t\<rparr>"
  by (subst advance.simps) simp

lemma foldl_drawDetection:
  "foldl (drawDetection m) w ds
     = w\<lparr>trace := trace w @ matchEffects (heap w (labeledDescriptors m)) (distanceThreshold m) ds\<rparr>"
proof (induction ds arbitrary: w)
  case Nil
  then show ?case by (simp add: matchEffects_def)
next
  case (Cons d ds)
  show ?case
    by (simp add: Cons.IH) (simp add: drawDetection_def Let_def emit_def matchEffects_def)
qed

lemma pollTick_eq:
  "pollTick e m w =
     w\<lparr>brightnessWarning :=
          (case video (e (now w)) of None \<Rightarrow> brightnessWarning w | Some f \<Rightarrow> brightnessSignal f),
       trace := trace w @ DetectAllFaces # ClearCanvas
                  # matchEffects (heap w (labeledDescriptors m)) (distanceThreshold m)
                      (faces (e (now w)))\<rparr>"
  by (simp add: pollTick_def Let_def foldl_drawDetection checkBrightness_def emit_def
        split: option.splits)

lemma handleDetect_start:
  assumes "registry w \<noteq> []"
  shows "handleDetect w =
           w\<lparr>detecting := True,
             trace := trace w @ [NewFaceMatcher (descriptorsState w) 0.6],
             timers := timers w @
               [\<lparr>tid = nextTimer w, due = now w + 300, every = Some 300,
                 act = PollTick \<lparr>labeledDescriptors = descriptorsState w, distanceThreshold = 0.6\<rparr>\<rparr>,
                \<lparr>tid = Suc (nextTimer w), due = now w + 30000, every = None,
                 act = StopSession (nextTimer w)\<rparr>],
             nextTimer := Suc (Suc (nextTimer w))\<rparr>"
  using assms
  by (simp add: handleDetect_def Let_def setInterval_def setTimeout_def emit_def)

text \<open>The first tick of a session, when time passes up to a moment before the second.\<close>

lemma first_tick:
  assumes "timers v = [\<lparr>tid = n, due = d, every = Some 300, act = PollTick m\<rparr>,
                       \<lparr>tid = n', due = D, every = None, act = StopSession n\<rparr>]"
    and "d \<le> t" and "t < d + 300" and "t < D" and "now v \<le> d"
  shows "advance e t v =
           v\<lparr>now := t,
             timers := [\<lparr>tid = n, due = d + 300, every = Some 300, act = PollTick m\<rparr>,
                        \<lparr>tid = n', due = D, every = None, act = StopSession n\<rparr>],
             brightnessWarning :=
               (case video (e d) of None \<Rightarrow> brightnessWarning v | Some f \<Rightarrow> brightnessSignal f),
             trace := trace v @ DetectAllFaces # ClearCanvas
                        # matchEffects (heap v (labeledDescriptors m)) (distanceThreshold m)
                            (faces (e d))\<rparr>"
proof -
  let ?v' = "fire e 0 v"
  have d: "d \<le> D" using assms(2,4) by simp
  have v': "?v' = v\<lparr>now := d,
             timers := [\<lparr>tid = n, due = d + 300, every = Some 300, act = PollTick m\<rparr>,
                        \<lparr>tid = n', due = D, every = None, act = StopSession n\<rparr>],
             brightnessWarning :=
               (case video (e d) of None \<Rightarrow> brightnessWarning v | Some f \<Rightarrow> brightnessSignal f),
             trace := trace v @ DetectAllFaces # ClearCanvas
                        # matchEffects (heap v (labeledDescriptors m)) (distanceThreshold m)
                            (faces (e d))\<rparr>"
    using assms(1,5) by (cases "video (e d)") (simp_all add: fire_def Let_def pollTick_eq max_def)
  have "advance e t v = advance e t ?v'"
    using assms(1,2) d by (subst advance.simps) simp
  also have "\<dots> = ?v'\<lparr>now := max (now ?v') t\<rparr>"
    using assms(3,4) by (subst advance.simps) (simp add: v')
  finally show ?thesis using assms(2) by (simp add: v' max_def)
qed

lemma handleDetect_registered:
  assumes "n \<noteq> []"
  shows "handleDetect (registered n) =
           \<lparr>heap = (\<lambda>_. [])(Suc 0 := [\<lparr>label = n, descriptors = [[0, 0]]\<rparr>]),
            nextRef = 2, descriptorsState = Suc 0, name = [], detecting = True,
            brightnessWarning = [],
            storage = [storageKey \<mapsto> toSave [\<lparr>label = n, descriptors = [[0, 0]]\<rparr>]],
            now = 0,
            timers = [\<lparr>tid = 0, due = 300, every = Some 300,
                       act = PollTick \<lparr>labeledDescriptors = Suc 0, distanceThreshold = 0.6\<rparr>\<rparr>,
                      \<lparr>tid = Suc 0, due = 30000, every = None, act = StopSession 0\<rparr>],
            nextTimer = 2,
            trace = [DetectSingleFace, Alert (n @ '' registered successfully!''),
                     NewFaceMatcher (Suc 0) 0.6]\<rparr>"
proof -
  have "registry (registered n) \<noteq> []"
    by (simp add: registered_eq [OF assms] registry_def)
  from handleDetect_start [OF this] show ?thesis
    by (simp add: registered_eq [OF assms])
qed

text \<open>
  Claim C1, as amended. For a probe and the registry of the session's matcher, with
  the threshold 0.6: when every stored embedding is farther than 0.6 from the probe,
  the face is labelled Unknown; when some stored embedding is within 0.6, there is an
  identity of the registry holding an embedding at the minimum distance over all
  stored embeddings, and the face is labelled with that identity's name and that
  distance, unless the name is the string \<open>unknown\<close>, in which case the face is
  labelled Unknown. A probe equal to a stored embedding is at distance 0 and is
  labelled in this way. A detected face of a poll tick is matched and drawn so.
\<close>

theorem drawn_label_by_nearest_identity:
  "trace (drawDetection \<lparr>labeledDescriptors = r0, distanceThreshold = 0.6\<rparr> w d)
     = trace w @ [FindBestMatch (descriptor d) (findBestMatch (heap w r0) 0.6 (descriptor d)),
                  DrawBox (faceBox d) (drawLabel (findBestMatch (heap w r0) 0.6 (descriptor d)))]
   \<and> ((\<forall>li\<in>set r. \<forall>e\<in>set (descriptors li). 0.6 < euclideanDistance e p) \<longrightarrow>
      drawLabel (findBestMatch r 0.6 p) = Unknown)
   \<and> ((\<exists>li\<in>set r. \<exists>e\<in>set (descriptors li). euclideanDistance e p \<le> 0.6) \<longrightarrow>
      (\<exists>li\<in>set r. \<exists>e\<in>set (descriptors li).
          (\<forall>li'\<in>set r. \<forall>e'\<in>set (descriptors li'). euclideanDistance e p \<le> euclideanDistance e' p)
          \<and> euclideanDistance e p \<le> 0.6
          \<and> drawLabel (findBestMatch r 0.6 p)
              = (if label li = ''unknown'' then Unknown
                 else MatchText (label li) (euclideanDistance e p))))
   \<and> ((\<exists>li\<in>set r. p \<in> set (descriptors li)) \<longrightarrow>
      (\<exists>li\<in>set r. \<exists>e\<in>set (descriptors li).
          euclideanDistance e p = 0
          \<and> drawLabel (findBestMatch r 0.6 p)
              = (if label li = ''unknown'' then Unknown else MatchText (label li) 0)))"
proof (intro conjI impI)
  show "trace (drawDetection \<lparr>labeledDescriptors = r0, distanceThreshold = 0.6\<rparr> w d)
     = trace w @ [FindBestMatch (descriptor d) (findBestMatch (heap w r0) 0.6 (descriptor d)),
                  DrawBox (faceBox d) (drawLabel (findBestMatch (heap w r0) 0.6 (descriptor d)))]"
    by (simp add: drawDetection_def Let_def emit_def)
next
  assume far: "\<forall>li\<in>set r. \<forall>e\<in>set (descriptors li). 0.6 < euclideanDistance e p"
  show "drawLabel (findBestMatch r 0.6 p) = Unknown"
  proof (cases "bestIdentity p r")
    case None
    then show ?thesis by (rule drawLabel_findBestMatch_None)
  next
    case (Some m)
    from bestIdentity_nearest [OF Some] far have "0.6 < distance m" by auto
    then show ?thesis by (simp add: drawLabel_findBestMatch_Some [OF Some])
  qed
next
  assume "\<exists>li\<in>set r. \<exists>e\<in>set (descriptors li). euclideanDistance e p \<le> 0.6"
  then obtain li0 e0 where near: "li0 \<in> set r" "e0 \<in> set (descriptors li0)"
    "euclideanDistance e0 p \<le> 0.6" by blast
  from near(2) have "descriptors li0 \<noteq> []" by auto
  with near(1) have "bestIdentity p r \<noteq> None" by (auto simp: bestIdentity_None)
  then obtain m where m: "bestIdentity p r = Some m" by auto
  from bestIdentity_nearest [OF m] obtain li e where le: "li \<in> set r" "e \<in> set (descriptors li)"
    "matchLabel m = label li" "distance m = euclideanDistance e p"
    "\<forall>li'\<in>set r. \<forall>e'\<in>set (descriptors li'). euclideanDistance e p \<le> euclideanDistance e' p"
    by blast
  from le(5) near have close: "euclideanDistance e p \<le> 0.6" by force
  have "drawLabel (findBestMatch r 0.6 p)
          = (if label li = ''unknown'' then Unknown else MatchText (label li) (euclideanDistance e p))"
    using close le(3,4) by (simp add: drawLabel_findBestMatch_Some [OF m])
  with le close
  show "\<exists>li\<in>set r. \<exists>e\<in>set (descriptors li).
          (\<forall>li'\<in>set r. \<forall>e'\<in>set (descriptors li'). euclideanDistance e p \<le> euclideanDistance e' p)
          \<and> euclideanDistance e p \<le> 0.6
          \<and> drawLabel (findBestMatch r 0.6 p)
              = (if label li = ''unknown'' then Unknown
                 else MatchText (label li) (euclideanDistance e p))"
    by blast
next
  assume "\<exists>li\<in>set r. p \<in> set (descriptors li)"
  then obtain li0 where same: "li0 \<in> set r" "p \<in> set (descriptors li0)" by blast
  from same(2) have "descriptors li0 \<noteq> []" by auto
  with same(1) have "bestIdentity p r \<noteq> None" by (auto simp: bestIdentity_None)
  then obtain m where m: "bestIdentity p r = Some m" by auto
  from bestIdentity_nearest [OF m] obtain li e where le: "li \<in> set r" "e \<in> set (descriptors li)"
    "matchLabel m = label li" "distance m = euclideanDistance e p"
    "\<forall>li'\<in>set r. \<forall>e'\<in>set (descriptors li'). euclideanDistance e p \<le> euclideanDistance e' p"
    by blast
  from le(5) same have "euclideanDistance e p \<le> euclideanDistance p p" by blast
  with euclideanDistance_nonneg [of e p] have zero: "euclideanDistance e p = 0"
    by (simp add: euclideanDistance_self)
  have "drawLabel (findBestMatch r 0.6 p)
          = (if label li = ''unknown'' then Unknown else MatchText (label li) 0)"
    using zero le(3,4) by (simp add: drawLabel_findBestMatch_Some [OF m])
  with le zero
  show "\<exists>li\<in>set r. \<exists>e\<in>set (descriptors li).
          euclideanDistance e p = 0
          \<and> drawLabel (findBestMatch r 0.6 p)
              = (if label li = ''unknown'' then Unknown else MatchText (label li) 0)"
    by blast
qed

theorem drawn_label_by_nearest_identity_witness:
  "drawLabel (findBestMatch [\<lparr>label = ''Alice'', descriptors = [[0, 0]]\<rparr>] 0.6 [1, 0]) = Unknown
   \<and> drawLabel (findBestMatch [\<lparr>label = ''Alice'', descriptors = [[0, 0]]\<rparr>] 0.6 [0, 0])
       = MatchText ''Alice'' 0
   \<and> euclideanDistance [0, 0] [1, 0] = 1"
proof -
  let ?r = "[\<lparr>label = ''Alice'', descriptors = [[0, 0]]\<rparr>]"
  have dist: "euclideanDistance [0, 0] [1, 0] = 1"
    by (simp add: euclideanDistance_def)
  then have far: "\<forall>li\<in>set ?r. \<forall>e\<in>set (descriptors li). 0.6 < euclideanDistance e [1, 0]"
    by simp
  have same: "\<exists>li\<in>set ?r. [0, 0] \<in> set (descriptors li)" by simp
  from drawn_label_by_nearest_identity [of r0 w d ?r "[1, 0]"] far
  have 1: "drawLabel (findBestMatch ?r 0.6 [1, 0]) = Unknown" by blast
  from drawn_label_by_nearest_identity [of r0 w d ?r "[0, 0]"] same
  have "\<exists>li\<in>set ?r. \<exists>e\<in>set (descriptors li).
          euclideanDistance e [0, 0] = 0
          \<and> drawLabel (findBestMatch ?r 0.6 [0, 0])
              = (if label li = ''unknown'' then Unknown else MatchText (label li) 0)"
    by blast
  then have 2: "drawLabel (findBestMatch ?r 0.6 [0, 0]) = MatchText ''Alice'' 0" by simp
  from 1 2 dist show ?thesis by simp
qed

text \<open>
  The claim as first stated fails for an identity registered under the name
  \<open>unknown\<close>: the probe equal to its stored embedding is at distance 0, within the
  threshold, and the first tick of a session labels the face Unknown instead of showing
  the name and the distance.
\<close>

theorem identity_named_unknown_is_drawn_unknown:
  "registry (registered ''unknown'') = [\<lparr>label = ''unknown'', descriptors = [[0, 0]]\<rparr>]
   \<and> euclideanDistance [0, 0] (descriptor aliceFace) = 0
   \<and> trace (advance (showing [aliceFace]) 300 (handleDetect (registered ''unknown'')))
       = trace (handleDetect (registered ''unknown''))
         @ [DetectAllFaces, ClearCanvas,
            FindBestMatch [0, 0] (Some \<lparr>matchLabel = ''unknown'', distance = 0\<rparr>),
            DrawBox (0, 0, 1, 1) Unknown]
   \<and> DrawBox (0, 0, 1, 1) (MatchText ''unknown'' 0)
       \<notin> set (trace (advance (showing [aliceFace]) 300 (handleDetect (registered ''unknown''))))"
proof -
  let ?w = "registered ''unknown''"
  let ?e = "showing [aliceFace]"
  let ?m = "\<lparr>labeledDescriptors = Suc 0, distanceThreshold = 0.6\<rparr>"
  have reg: "registry ?w = [\<lparr>label = ''unknown'', descriptors = [[0, 0]]\<rparr>]"
    using registered_eq [of "''unknown''"] by (simp add: registry_def)
  have dist: "euclideanDistance [0, 0] (descriptor aliceFace) = 0"
    by (simp add: aliceFace_def euclideanDistance_def)
  have hd: "handleDetect ?w =
           \<lparr>heap = (\<lambda>_. [])(Suc 0 := [\<lparr>label = ''unknown'', descriptors = [[0, 0]]\<rparr>]),
            nextRef = 2, descriptorsState = Suc 0, name = [], detecting = True,
            brightnessWarning = [],
            storage = [storageKey \<mapsto> toSave [\<lparr>label = ''unknown'', descriptors = [[0, 0]]\<rparr>]],
            now = 0,
            timers = [\<lparr>tid = 0, due = 300, every = Some 300, act = PollTick ?m\<rparr>,
                      \<lparr>tid = Suc 0, due = 30000, every = None, act = StopSession 0\<rparr>],
            nextTimer = 2,
            trace = [DetectSingleFace, Alert (''unknown'' @ '' registered successfully!''),
                     NewFaceMatcher (Suc 0) 0.6]\<rparr>"
    by (rule handleDetect_registered) simp
  have tm: "timers (handleDetect ?w) =
      [\<lparr>tid = 0, due = 300, every = Some 300, act = PollTick ?m\<rparr>,
       \<lparr>tid = Suc 0, due = 30000, every = None, act = StopSession 0\<rparr>]"
    and nw: "now (handleDetect ?w) \<le> 300"
    and hp: "heap (handleDetect ?w) (Suc 0) = [\<lparr>label = ''unknown'', descriptors = [[0, 0]]\<rparr>]"
    by (simp_all add: hd)
  have fx: "matchEffects [\<lparr>label = ''unknown'', descriptors = [[0, 0]]\<rparr>] th [aliceFace]
              = [FindBestMatch [0, 0] (Some \<lparr>matchLabel = ''unknown'', distance = 0\<rparr>),
                 DrawBox (0, 0, 1, 1) Unknown]" if "0 \<le> th" for th
    using that
    by (simp add: matchEffects_def aliceFace_def findBestMatch_def drawLabel_def
          euclideanDistance_def)
  have adv: "advance ?e 300 (handleDetect ?w) =
           (handleDetect ?w)\<lparr>now := 300,
             timers := [\<lparr>tid = 0, due = 300 + 300, every = Some 300, act = PollTick ?m\<rparr>,
                        \<lparr>tid = Suc 0, due = 30000, every = None, act = StopSession 0\<rparr>],
             brightnessWarning :=
               (case video (?e 300) of None \<Rightarrow> brightnessWarning (handleDetect ?w)
                | Some f \<Rightarrow> brightnessSignal f),
             trace := trace (handleDetect ?w) @ DetectAllFaces # ClearCanvas
                        # matchEffects (heap (handleDetect ?w) (labeledDescriptors ?m))
                            (distanceThreshold ?m) (faces (?e 300))\<rparr>"
    by (rule first_tick [OF tm _ _ _ nw]) simp_all
  have tr: "trace (advance ?e 300 (handleDetect ?w))
       = trace (handleDetect ?w)
         @ [DetectAllFaces, ClearCanvas,
            FindBestMatch [0, 0] (Some \<lparr>matchLabel = ''unknown'', distance = 0\<rparr>),
            DrawBox (0, 0, 1, 1) Unknown]"
    unfolding adv by (simp add: hp showing_def fx)
  have "DrawBox (0, 0, 1, 1) (MatchText ''unknown'' 0) \<notin> set (trace (handleDetect ?w))"
    by (simp add: hd)
  with tr have no: "DrawBox (0, 0, 1, 1) (MatchText ''unknown'' 0)
       \<notin> set (trace (advance ?e 300 (handleDetect ?w)))"
    by simp
  from reg dist tr no show ?thesis by simp
qed

subsection \<open>The recognition session\<close>

text \<open>
  Claim C6. When the registry is empty, a request for a recognition session only
  raises the alert asking to register a face first: the detecting flag, and with it
  the controls, the pending timers and the timer counter are as before, no matcher is
  built, and from an idle state no poll tick ever follows.
\<close>

theorem detect_refused_on_empty_registry:
  assumes "registry w = []"
  shows "handleDetect w = w\<lparr>trace := trace w @ [Alert registerFirstMessage]\<rparr>
       \<and> detecting (handleDetect w) = detecting w
       \<and> controlsDisabled (handleDetect w) = controlsDisabled w
       \<and> timers (handleDetect w) = timers w
       \<and> nextTimer (handleDetect w) = nextTimer w
       \<and> NewFaceMatcher (descriptorsState w) 0.6
            \<notin> set (drop (length (trace w)) (trace (handleDetect w)))
       \<and> (timers w = [] \<longrightarrow>
            trace (advance e t (handleDetect w)) = trace w @ [Alert registerFirstMessage])"
proof -
  have eq: "handleDetect w = w\<lparr>trace := trace w @ [Alert registerFirstMessage]\<rparr>"
    using assms by (simp add: handleDetect_def alert_def emit_def)
  have "trace (advance e t (handleDetect w)) = trace w @ [Alert registerFirstMessage]"
    if "timers w = []"
    using that by (simp add: eq advance_idle)
  then show ?thesis by (simp add: eq controlsDisabled_def)
qed

theorem detect_refused_on_empty_registry_witness:
  "handleDetect (initialWorld Map.empty)
     = (initialWorld Map.empty)\<lparr>trace := [Alert registerFirstMessage]\<rparr>
   \<and> detecting (handleDetect (initialWorld Map.empty)) = False
   \<and> timers (handleDetect (initialWorld Map.empty)) = []
   \<and> trace (advance (showing [aliceFace]) 30000 (handleDetect (initialWorld Map.empty)))
       = [Alert registerFirstMessage]"
proof -
  let ?w = "initialWorld Map.empty"
  have r: "registry ?w = []" and t: "timers ?w = []" and tr: "trace ?w = []"
    and d: "detecting ?w = False"
    by (simp_all add: initialWorld_def registry_def)
  from detect_refused_on_empty_registry [OF r, of "showing [aliceFace]" 30000] t
  have 1: "handleDetect ?w = ?w\<lparr>trace := trace ?w @ [Alert registerFirstMessage]\<rparr>"
    and 2: "detecting (handleDetect ?w) = detecting ?w"
    and 3: "timers (handleDetect ?w) = timers ?w"
    and 4: "trace (advance (showing [aliceFace]) 30000 (handleDetect ?w))
              = trace ?w @ [Alert registerFirstMessage]"
    by blast+
  from 1 2 3 4 t tr d show ?thesis by simp
qed

lemma session_ends:
  assumes "timers v = [\<lparr>tid = n, due = d, every = Some 300, act = PollTick m\<rparr>,
                       \<lparr>tid = n', due = D, every = None, act = StopSession n\<rparr>]"
    and "D \<le> t"
  shows "timers (advance e t v) = [] \<and> detecting (advance e t v) = False"
  using assms
proof (induction "Suc D - d" arbitrary: d v rule: less_induct)
  case less
  show ?case
  proof (cases "d \<le> D")
    case True
    let ?v' = "fire e 0 v"
    have step: "advance e t v = advance e t ?v'"
      using less.prems True by (subst advance.simps) simp
    have tm: "timers ?v' = [\<lparr>tid = n, due = d + 300, every = Some 300, act = PollTick m\<rparr>,
                       \<lparr>tid = n', due = D, every = None, act = StopSession n\<rparr>]"
      using less.prems by (simp add: fire_def Let_def pollTick_eq)
    have "Suc D - (d + 300) < Suc D - d" using True by simp
    from less.hyps [OF this tm less.prems(2)] step show ?thesis by simp
  next
    case False
    let ?v' = "fire e 1 v"
    have step: "advance e t v = advance e t ?v'"
      using less.prems False by (subst advance.simps) simp
    have tm: "timers ?v' = []" and det: "detecting ?v' = False"
      using less.prems by (simp_all add: fire_def Let_def clearInterval_def)
    from tm have "advance e t ?v' = ?v'\<lparr>now := max (now ?v') t\<rparr>" by (rule advance_idle)
    with step tm det show ?thesis by simp
  qed
qed

lemma session_runs:
  assumes "timers v = [\<lparr>tid = n, due = d, every = Some 300, act = PollTick m\<rparr>,
                       \<lparr>tid = n', due = D, every = None, act = StopSession n\<rparr>]"
    and "t < D" and "detecting v"
  shows "detecting (advance e t v) \<and> timers (advance e t v) \<noteq> []"
  using assms
proof (induction "Suc t - d" arbitrary: d v rule: less_induct)
  case less
  show ?case
  proof (cases "d \<le> t")
    case True
    let ?v' = "fire e 0 v"
    have step: "advance e t v = advance e t ?v'"
      using less.prems True by (subst advance.simps) simp
    have tm: "timers ?v' = [\<lparr>tid = n, due = d + 300, every = Some 300, act = PollTick m\<rparr>,
                       \<lparr>tid = n', due = D, every = None, act = StopSession n\<rparr>]"
      and det: "detecting ?v'"
      using less.prems by (simp_all add: fire_def Let_def pollTick_eq)
    have "Suc t - (d + 300) < Suc t - d" using True by simp
    from less.hyps [OF this tm less.prems(2) det] step show ?thesis by simp
  next
    case False
    have "advance e t v = v\<lparr>now := max (now v) t\<rparr>"
      using less.prems False by (subst advance.simps) simp
    with less.prems show ?thesis by simp
  qed
qed

text \<open>
  Claim C7. A session entered from an idle state with a registry that is not empty
  disables the controls; once 30000 milliseconds have passed since its entry, the
  detecting flag is false again, so the controls are enabled, and no timer is
  pending: whatever time passes afterwards, nothing fires and no further call is
  made. Before that moment the session is still running.
\<close>

theorem session_stops_after_thirty_seconds:
  assumes "registry w \<noteq> []" and "timers w = []" and "now w + 30000 \<le> t"
  shows "detecting (handleDetect w)
       \<and> controlsDisabled (handleDetect w)
       \<and> detecting (advance e t (handleDetect w)) = False
       \<and> controlsDisabled (advance e t (handleDetect w)) = False
       \<and> timers (advance e t (handleDetect w)) = []
       \<and> (\<forall>t'. advance e t' (advance e t (handleDetect w))
                = (advance e t (handleDetect w))\<lparr>now := max (now (advance e t (handleDetect w))) t'\<rparr>)
       \<and> (\<forall>t'. trace (advance e t' (advance e t (handleDetect w)))
                = trace (advance e t (handleDetect w)))
       \<and> (\<forall>s. s < now w + 30000 \<longrightarrow> detecting (advance e s (handleDetect w)))"
proof -
  let ?w1 = "handleDetect w"
  let ?w2 = "advance e t ?w1"
  note start = handleDetect_start [OF assms(1)]
  have tm: "timers ?w1 =
      [\<lparr>tid = nextTimer w, due = now w + 300, every = Some 300,
        act = PollTick \<lparr>labeledDescriptors = descriptorsState w, distanceThreshold = 0.6\<rparr>\<rparr>,
       \<lparr>tid = Suc (nextTimer w), due = now w + 30000, every = None,
        act = StopSession (nextTimer w)\<rparr>]"
    by (simp add: start assms(2))
  have det: "detecting ?w1" by (simp add: start)
  from session_ends [OF tm assms(3)]
  have stop: "timers ?w2 = []" "detecting ?w2 = False" by simp_all
  have idle: "advance e t' ?w2 = ?w2\<lparr>now := max (now ?w2) t'\<rparr>" for t'
    using stop(1) by (rule advance_idle)
  have run: "detecting (advance e s ?w1)" if "s < now w + 30000" for s
    using session_runs [OF tm that det] by simp
  show ?thesis using det stop idle run by (simp add: controlsDisabled_def)
qed

theorem session_stops_after_thirty_seconds_witness:
  "detecting (handleDetect (registered ''Alice''))
   \<and> detecting (advance (showing [aliceFace]) 29999 (handleDetect (registered ''Alice'')))
   \<and> detecting (advance (showing [aliceFace]) 30000 (handleDetect (registered ''Alice''))) = False
   \<and> timers (advance (showing [aliceFace]) 30000 (handleDetect (registered ''Alice''))) = []
   \<and> trace (advance (showing [aliceFace]) 60000
              (advance (showing [aliceFace]) 30000 (handleDetect (registered ''Alice''))))
       = trace (advance (showing [aliceFace]) 30000 (handleDetect (registered ''Alice'')))"
proof -
  let ?w = "registered ''Alice''"
  have w: "?w = \<lparr>heap = (\<lambda>_. [])(Suc 0 := [\<lparr>label = ''Alice'', descriptors = [[0, 0]]\<rparr>]),
            nextRef = 2, descriptorsState = 1, name = [], detecting = False,
            brightnessWarning = [],
            storage = [storageKey \<mapsto> toSave [\<lparr>label = ''Alice'', descriptors = [[0, 0]]\<rparr>]],
            now = 0, timers = [], nextTimer = 0,
            trace = [DetectSingleFace, Alert (''Alice'' @ '' registered successfully!'')]\<rparr>"
    by (rule registered_eq) simp
  have r: "registry ?w \<noteq> []" and t: "timers ?w = []" and n: "now ?w + 30000 \<le> 30000"
    and n': "(29999::nat) < now ?w + 30000"
    by (simp_all add: w registry_def)
  from session_stops_after_thirty_seconds [OF r t n, of "showing [aliceFace]"] n'
  show ?thesis by simp
qed

lemma snapshotMatch_matchEffects: "list_all (snapshotMatch r th) (matchEffects r th ds)"
  by (induction ds) (simp_all add: snapshotMatch_def matchEffects_def)

lemma sessionInv_handleRegister:
  assumes "sessionInv r0 snapshot th before v"
  shows "sessionInv r0 snapshot th before (handleRegister found (setName n v))"
proof -
  from assms obtain es where es: "trace v = before @ es" "list_all (snapshotMatch snapshot th) es"
    and r0: "r0 < nextRef v" "heap v r0 = snapshot"
    and tms: "list_all (sessionTimer r0 th) (timers v)"
    by (auto simp: sessionInv_def)
  show ?thesis
  proof (cases "n = []")
    case True
    then show ?thesis using es r0 tms
      by (simp add: sessionInv_def handleRegister_def alert_def emit_def snapshotMatch_def
            setName_def)
  next
    case False
    show ?thesis
    proof (cases found)
      case None
      then show ?thesis using False es r0 tms
        by (simp add: sessionInv_def handleRegister_def Let_def alert_def emit_def snapshotMatch_def
              setName_def)
    next
      case (Some d)
      then show ?thesis using False es r0 tms
        by (simp add: sessionInv_def handleRegister_def Let_def alert_def emit_def
              appendDescriptor_def setDescriptors_def snapshotMatch_def setName_def)
    qed
  qed
qed

lemma list_all_take_drop:
  "list_all P xs \<Longrightarrow> list_all P (take i xs @ drop j xs)"
  by (auto simp: list_all_iff dest: in_set_takeD in_set_dropD)

lemma list_all_update:
  "list_all P xs \<Longrightarrow> P y \<Longrightarrow> list_all P (xs[i := y])"
  by (auto simp: list_all_iff dest!: subsetD [OF set_update_subset_insert])

lemma sessionInv_fire:
  assumes inv: "sessionInv r0 snapshot th before v" and i: "i < length (timers v)"
  shows "sessionInv r0 snapshot th before (fire e i v)"
proof -
  let ?tm = "timers v ! i"
  from inv obtain es where es: "trace v = before @ es" "list_all (snapshotMatch snapshot th) es"
    and r0: "r0 < nextRef v" "heap v r0 = snapshot"
    and tms: "list_all (sessionTimer r0 th) (timers v)"
    by (auto simp: sessionInv_def)
  from tms i have Ptm: "sessionTimer r0 th ?tm" by (simp add: list_all_length)
  define pending where "pending = (case every ?tm of
                       None \<Rightarrow> take i (timers v) @ drop (Suc i) (timers v)
                     | Some p \<Rightarrow> (timers v)[i := ?tm\<lparr>due := due ?tm + max 1 p\<rparr>])"
  have pend: "list_all (sessionTimer r0 th) pending"
  proof (cases "every ?tm")
    case None
    have "list_all (sessionTimer r0 th) (take i (timers v) @ drop (Suc i) (timers v))"
      using tms by (rule list_all_take_drop)
    then show ?thesis using None by (simp add: pending_def)
  next
    case (Some p)
    have "sessionTimer r0 th (?tm\<lparr>due := due ?tm + max 1 p\<rparr>)"
      using Ptm by (simp add: sessionTimer_def)
    with tms have "list_all (sessionTimer r0 th) ((timers v)[i := ?tm\<lparr>due := due ?tm + max 1 p\<rparr>])"
      by (rule list_all_update)
    then show ?thesis using Some by (simp add: pending_def)
  qed
  have fire: "fire e i v = runAction e (act ?tm) (v\<lparr>now := max (now v) (due ?tm), timers := pending\<rparr>)"
    by (simp add: fire_def Let_def pending_def)
  show ?thesis
  proof (cases "act ?tm")
    case (PollTick m)
    with Ptm have m: "labeledDescriptors m = r0" "distanceThreshold m = th"
      by (simp_all add: sessionTimer_def)
    have "list_all (snapshotMatch snapshot th) [DetectAllFaces, ClearCanvas]"
      by (simp add: snapshotMatch_def)
    then show ?thesis
      using es r0 pend snapshotMatch_matchEffects [of snapshot th]
      by (simp add: fire PollTick pollTick_eq m sessionInv_def)
  next
    case (StopSession k)
    have "list_all (sessionTimer r0 th) (filter (\<lambda>t. tid t \<noteq> k) pending)"
      using pend by (auto simp: list_all_iff)
    then show ?thesis
      using es r0 by (simp add: fire StopSession clearInterval_def sessionInv_def)
  qed
qed

lemma sessionInv_now:
  "sessionInv r0 snapshot th before v \<Longrightarrow> sessionInv r0 snapshot th before (v\<lparr>now := c\<rparr>)"
  by (simp add: sessionInv_def)

lemma sessionInv_advance:
  "sessionInv r0 snapshot th before v \<Longrightarrow> sessionInv r0 snapshot th before (advance e t v)"
proof (induction e t v rule: advance.induct)
  case (1 e t w)
  show ?case
  proof (cases "earliest (timers w)")
    case None
    then have "advance e t w = w\<lparr>now := max (now w) t\<rparr>" by (subst advance.simps) simp
    with "1.prems" show ?thesis by (simp add: sessionInv_now)
  next
    case (Some i)
    show ?thesis
    proof (cases "due (timers w ! i) \<le> t")
      case True
      have "advance e t w = advance e t (fire e i w)"
        using Some True by (subst advance.simps) simp
      moreover have "sessionInv r0 snapshot th before (fire e i w)"
        using "1.prems" earliest_less [OF Some] by (rule sessionInv_fire)
      ultimately show ?thesis using "1.IH" [OF Some True] by simp
    next
      case False
      then have "advance e t w = w\<lparr>now := max (now w) t\<rparr>"
        using Some by (subst advance.simps) simp
      with "1.prems" show ?thesis by (simp add: sessionInv_now)
    qed
  qed
qed

lemma sessionInv_run:
  "sessionInv r0 snapshot th before v \<Longrightarrow> sessionInv r0 snapshot th before (run e evs v)"
proof (induction evs arbitrary: v)
  case Nil
  then show ?case by (simp add: run_def)
next
  case (Cons ev evs)
  have "sessionInv r0 snapshot th before (step e v ev)"
    using Cons.prems by (cases ev) (simp_all add: sessionInv_handleRegister sessionInv_advance)
  from Cons.IH [OF this] show ?case by (simp add: run_def)
qed

lemma sessionInv_handleDetect:
  assumes "registry w \<noteq> []" and "timers w = []" and "descriptorsState w < nextRef w"
  shows "sessionInv (descriptorsState w) (registry w) 0.6 (trace (handleDetect w)) (handleDetect w)"
  using assms(2,3)
  by (simp add: handleDetect_start [OF assms(1)] sessionInv_def registry_def sessionTimer_def)

text \<open>
  Claim C8. The matcher of a session is built over the array the registry was at the
  session's entry. Whatever registrations complete and whatever time passes after the
  entry, that array keeps its content, and every match computed since the entry is the
  match of the probe against the registry as it was at the entry.
\<close>

theorem session_matches_against_entry_snapshot:
  assumes "registry w \<noteq> []" and "timers w = []" and "descriptorsState w < nextRef w"
  shows "heap (run e evs (handleDetect w)) (descriptorsState w) = registry w
       \<and> (\<exists>es. trace (run e evs (handleDetect w)) = trace (handleDetect w) @ es
              \<and> (\<forall>p res. FindBestMatch p res \<in> set es \<longrightarrow> res = findBestMatch (registry w) 0.6 p))"
proof -
  from sessionInv_run [OF sessionInv_handleDetect [OF assms], of e evs]
  obtain es where heap: "heap (run e evs (handleDetect w)) (descriptorsState w) = registry w"
    and es: "trace (run e evs (handleDetect w)) = trace (handleDetect w) @ es"
      "list_all (snapshotMatch (registry w) 0.6) es"
    by (auto simp: sessionInv_def)
  have "res = findBestMatch (registry w) 0.6 p" if "FindBestMatch p res \<in> set es" for p res
    using es(2) that by (auto simp: snapshotMatch_def list_all_iff)
  with heap es(1) show ?thesis by blast
qed

theorem session_matches_against_entry_snapshot_witness:
  "heap (run (showing [bobFace]) [Register ''Bob'' (Some bobFace), Elapse 300]
           (handleDetect (registered ''Alice'')))
        (descriptorsState (registered ''Alice''))
     = [\<lparr>label = ''Alice'', descriptors = [[0, 0]]\<rparr>]
   \<and> registry (run (showing [bobFace]) [Register ''Bob'' (Some bobFace), Elapse 300]
                 (handleDetect (registered ''Alice'')))
     = [\<lparr>label = ''Alice'', descriptors = [[0, 0]]\<rparr>, \<lparr>label = ''Bob'', descriptors = [[1, 0]]\<rparr>]
   \<and> last (trace (run (showing [bobFace]) [Register ''Bob'' (Some bobFace), Elapse 300]
                     (handleDetect (registered ''Alice''))))
     = DrawBox (2, 0, 1, 1) Unknown"
proof -
  let ?w = "registered ''Alice''"
  let ?e = "showing [bobFace]"
  let ?evs = "[Register ''Bob'' (Some bobFace), Elapse 300]"
  let ?v = "handleRegister (Some bobFace) (setName ''Bob'' (handleDetect ?w))"
  let ?m = "\<lparr>labeledDescriptors = Suc 0, distanceThreshold = 0.6\<rparr>"
  have w: "?w = \<lparr>heap = (\<lambda>_. [])(Suc 0 := [\<lparr>label = ''Alice'', descriptors = [[0, 0]]\<rparr>]),
            nextRef = 2, descriptorsState = 1, name = [], detecting = False,
            brightnessWarning = [],
            storage = [storageKey \<mapsto> toSave [\<lparr>label = ''Alice'', descriptors = [[0, 0]]\<rparr>]],
            now = 0, timers = [], nextTimer = 0,
            trace = [DetectSingleFace, Alert (''Alice'' @ '' registered successfully!'')]\<rparr>"
    by (rule registered_eq) simp
  have reg: "registry ?w = [\<lparr>label = ''Alice'', descriptors = [[0, 0]]\<rparr>]"
    by (simp add: w registry_def)
  then have r: "registry ?w \<noteq> []" by simp
  have t: "timers ?w = []" and a: "descriptorsState ?w < nextRef ?w"
    by (simp_all add: w)
  from session_matches_against_entry_snapshot [OF r t a, of ?e ?evs] reg
  have 1: "heap (run ?e ?evs (handleDetect ?w)) (descriptorsState ?w)
             = [\<lparr>label = ''Alice'', descriptors = [[0, 0]]\<rparr>]"
    by simp
  have hd: "handleDetect ?w =
           \<lparr>heap = (\<lambda>_. [])(Suc 0 := [\<lparr>label = ''Alice'', descriptors = [[0, 0]]\<rparr>]),
            nextRef = 2, descriptorsState = Suc 0, name = [], detecting = True,
            brightnessWarning = [],
            storage = [storageKey \<mapsto> toSave [\<lparr>label = ''Alice'', descriptors = [[0, 0]]\<rparr>]],
            now = 0,
            timers = [\<lparr>tid = 0, due = 300, every = Some 300, act = PollTick ?m\<rparr>,
                      \<lparr>tid = Suc 0, due = 30000, every = None, act = StopSession 0\<rparr>],
            nextTimer = 2,
            trace = [DetectSingleFace, Alert (''Alice'' @ '' registered successfully!''),
                     NewFaceMatcher (Suc 0) 0.6]\<rparr>"
    by (rule handleDetect_registered) simp
  have run: "run ?e ?evs (handleDetect ?w) = advance ?e 300 ?v"
    by (simp add: run_def)
  have tm: "timers ?v =
      [\<lparr>tid = 0, due = 300, every = Some 300, act = PollTick ?m\<rparr>,
       \<lparr>tid = Suc 0, due = 30000, every = None, act = StopSession 0\<rparr>]"
    and nw: "now ?v \<le> 300"
    and hp: "heap ?v (Suc 0) = [\<lparr>label = ''Alice'', descriptors = [[0, 0]]\<rparr>]"
    and rg: "registry ?v = [\<lparr>label = ''Alice'', descriptors = [[0, 0]]\<rparr>,
                            \<lparr>label = ''Bob'', descriptors = [[1, 0]]\<rparr>]"
    by (simp_all add: hd setName_def handleRegister_def Let_def appendDescriptor_def
          setDescriptors_def alert_def emit_def registry_def bobFace_def)
  have fx: "matchEffects [\<lparr>label = ''Alice'', descriptors = [[0, 0]]\<rparr>] th [bobFace]
              = [FindBestMatch [1, 0] (Some \<lparr>matchLabel = ''unknown'', distance = 1\<rparr>),
                 DrawBox (2, 0, 1, 1) Unknown]" if "th < 1" for th
    using that
    by (simp add: matchEffects_def bobFace_def findBestMatch_def drawLabel_def
          euclideanDistance_def)
  have adv: "advance ?e 300 ?v =
           ?v\<lparr>now := 300,
             timers := [\<lparr>tid = 0, due = 300 + 300, every = Some 300, act = PollTick ?m\<rparr>,
                        \<lparr>tid = Suc 0, due = 30000, every = None, act = StopSession 0\<rparr>],
             brightnessWarning :=
               (case video (?e 300) of None \<Rightarrow> brightnessWarning ?v | Some f \<Rightarrow> brightnessSignal f),
             trace := trace ?v @ DetectAllFaces # ClearCanvas
                        # matchEffects (heap ?v (labeledDescriptors ?m)) (distanceThreshold ?m)
                            (faces (?e 300))\<rparr>"
    by (rule first_tick [OF tm _ _ _ nw]) simp_all
  have 2: "registry (run ?e ?evs (handleDetect ?w))
             = [\<lparr>label = ''Alice'', descriptors = [[0, 0]]\<rparr>, \<lparr>label = ''Bob'', descriptors = [[1, 0]]\<rparr>]"
    using rg unfolding run adv by (simp add: registry_def)
  have 3: "last (trace (run ?e ?evs (handleDetect ?w))) = DrawBox (2, 0, 1, 1) Unknown"
    unfolding run adv by (simp add: hp showing_def fx)
  from 1 2 3 show ?thesis by simp
qed

end
